theory Spec2Isabelle
  imports Main "HOL-Library.Char_ord" "HOL-Library.List_Lexorder"
begin

section \<open>Strings, as the ledger uses them\<close>

text \<open>
  A Python \<open>str\<close> is modelled as a \<open>string\<close> whose characters are the code points
  U+0000 .. U+00FF. The order on strings is the lexicographic order of the characters,
  which is the order of SQLite's default BINARY collation on the UTF-8 encoding of such
  strings.
\<close>

definition LF :: char where "LF = CHR 0x0A"
definition CR :: char where "CR = CHR 0x0D"

text \<open>\<open>sep.join(parts)\<close>\<close>

fun join :: "string \<Rightarrow> string list \<Rightarrow> string" where
  "join sep [] = []"
| "join sep [x] = x"
| "join sep (x # y # ys) = x @ sep @ join sep (y # ys)"

text \<open>\<open>str.isspace\<close> on one character, for code points below 256\<close>

definition is_space :: "char \<Rightarrow> bool" where
  "is_space c = (let n = (of_char c :: nat) in
     (9 \<le> n \<and> n \<le> 13) \<or> (28 \<le> n \<and> n \<le> 32) \<or> n = 133 \<or> n = 160)"

text \<open>\<open>s.strip()\<close>\<close>

definition strip :: "string \<Rightarrow> string" where
  "strip s = rev (dropWhile is_space (rev (dropWhile is_space s)))"

text \<open>\<open>s.startswith(p)\<close>\<close>

definition startswith :: "string \<Rightarrow> string \<Rightarrow> bool" where
  "startswith s p = (take (length p) s = p)"

text \<open>\<open>s.split("=", 1)\<close>, for a string that contains \<open>=\<close>: the parts before and after
  the first \<open>=\<close>\<close>

definition split_eq :: "string \<Rightarrow> string \<times> string" where
  "split_eq s = (takeWhile (\<lambda>c. c \<noteq> CHR ''='') s, drop 1 (dropWhile (\<lambda>c. c \<noteq> CHR ''='') s))"

text \<open>
  Reading a file in text mode with the default \<open>newline=None\<close> (\<open>open(..., "r")\<close>,
  \<open>Path.read_text\<close>): the line endings \<open>\r\n\<close> and \<open>\r\<close> are translated to \<open>\n\<close>.
  The flag says that the previous character was a \<open>\r\<close>. Writing in text mode on
  POSIX (the platform of the source) leaves the text as it is.
\<close>

fun universal_newlines :: "bool \<Rightarrow> string \<Rightarrow> string" where
  "universal_newlines after_cr [] = []"
| "universal_newlines after_cr (c # cs) =
     (if c = CR then LF # universal_newlines True cs
      else if c = LF \<and> after_cr then universal_newlines False cs
      else c # universal_newlines False cs)"

definition read_text :: "string \<Rightarrow> string" where
  "read_text content = universal_newlines False content"

text \<open>\<open>for line in f\<close>: the lines of the translated text, each with its \<open>\n\<close>; a last
  line without \<open>\n\<close> is a line when it is not empty\<close>

fun readlines :: "string \<Rightarrow> string \<Rightarrow> string list" where
  "readlines cur [] = (if cur = [] then [] else [cur])"
| "readlines cur (c # cs) =
     (if c = LF then (cur @ [c]) # readlines [] cs else readlines (cur @ [c]) cs)"

text \<open>\<open>str.splitlines()\<close>: the line boundaries among the code points below 256 are
  \<open>\n\<close>, \<open>\r\<close>, \<open>\r\n\<close>, \<open>\v\<close>, \<open>\f\<close>, \<open>\x1c\<close>, \<open>\x1d\<close>, \<open>\x1e\<close> and \<open>\x85\<close>;
  the boundaries are not part of the lines\<close>

definition is_linebreak :: "char \<Rightarrow> bool" where
  "is_linebreak c = (let n = (of_char c :: nat) in
     (10 \<le> n \<and> n \<le> 13) \<or> (28 \<le> n \<and> n \<le> 30) \<or> n = 133)"

fun splitlines :: "bool \<Rightarrow> string \<Rightarrow> string \<Rightarrow> string list" where
  "splitlines after_cr cur [] = (if cur = [] then [] else [cur])"
| "splitlines after_cr cur (c # cs) =
     (if after_cr \<and> c = LF then splitlines False cur cs
      else if is_linebreak c then cur # splitlines (c = CR) [] cs
      else splitlines False (cur @ [c]) cs)"

section \<open>Canonical JSON\<close>

text \<open>
  The payload of an event is a JSON value; \<open>canonical_json\<close> is
  \<open>json.dumps(obj, ensure_ascii=False, sort_keys=True, separators=(",", ":"))\<close>
  on values built from \<open>None\<close>, booleans, integers, strings, lists and dictionaries
  with string keys (a dictionary is the list of its items; its keys are distinct).
\<close>

datatype json = JNull | JBool bool | JInt int | JStr string | JList "json list"
  | JDict "(string \<times> json) list"

definition hexdigit :: "nat \<Rightarrow> char" where
  "hexdigit n = ''0123456789abcdef'' ! (n mod 16)"

fun dec_nat :: "nat \<Rightarrow> string" where
  "dec_nat n = (if n < 10 then [hexdigit n] else dec_nat (n div 10) @ [hexdigit (n mod 10)])"

declare dec_nat.simps [simp del]

definition dec_int :: "int \<Rightarrow> string" where
  "dec_int i = (if i < 0 then ''-'' @ dec_nat (nat (- i)) else dec_nat (nat i))"

definition json_escape :: "char \<Rightarrow> string" where
  "json_escape c =
     (if c = CHR 0x22 then [CHR 0x5C, CHR 0x22]
      else if c = CHR 0x5C then [CHR 0x5C, CHR 0x5C]
      else if c = LF then [CHR 0x5C, CHR ''n'']
      else if c = CR then [CHR 0x5C, CHR ''r'']
      else if c = CHR 0x09 then [CHR 0x5C, CHR ''t'']
      else if c = CHR 0x08 then [CHR 0x5C, CHR ''b'']
      else if c = CHR 0x0C then [CHR 0x5C, CHR ''f'']
      else if (of_char c :: nat) < 32
        then [CHR 0x5C, CHR ''u'', CHR ''0'', CHR ''0'',
              hexdigit (of_char c div 16), hexdigit (of_char c)]
      else [c])"

definition json_string :: "string \<Rightarrow> string" where
  "json_string s = [CHR 0x22] @ concat (map json_escape s) @ [CHR 0x22]"

fun canonical_json :: "json \<Rightarrow> string" where
  "canonical_json JNull = ''null''"
| "canonical_json (JBool b) = (if b then ''true'' else ''false'')"
| "canonical_json (JInt i) = dec_int i"
| "canonical_json (JStr s) = json_string s"
| "canonical_json (JList xs) = ''['' @ join '','' (map canonical_json xs) @ '']''"
| "canonical_json (JDict kvs) =
     ''{'' @ join '','' (map (\<lambda>(k, v). json_string k @ '':'' @ canonical_json v)
                          (sort_key fst kvs)) @ ''}''"

section \<open>The event store (ledger.py)\<close>

text \<open>
  A row of the table \<open>ledger_events\<close>, and the table as the list of its rows in rowid
  (insertion) order. \<open>event_id\<close> is the primary key and \<open>event_hash\<close> has a unique
  index; every column is \<open>TEXT NOT NULL\<close>.
\<close>

record ledger_event =
  event_id :: string
  created_at :: string
  event_type :: string
  entity_type :: string
  entity_id :: string
  payload_json :: string
  prev_hash :: string
  event_hash :: string

type_synonym conn = "ledger_event list"

text \<open>
  The exceptions of the source. \<open>verify_chain\<close>, \<open>verify_anchor\<close>,
  \<open>read_anchor_file\<close> and \<open>send_email\<close> raise \<open>ValueError\<close> with the messages
  named here; a violated uniqueness constraint makes \<open>INSERT\<close> raise
  \<open>sqlite3.IntegrityError\<close>; \<open>SmtpFailure\<close> is any exception of the SMTP
  conversation.
\<close>

datatype error =
    ChainBroken nat
  | TamperDetected nat
  | AnchorNotFound
  | MissingLatestHash
  | AnchorMismatch string string
  | IntegrityError
  | PortNotInt
  | MissingSmtpEnv
  | SmtpFailure

definition GENESIS_HASH :: string where
  "GENESIS_HASH = ''GENESIS''"

text \<open>
  \<open>SELECT ... ORDER BY created_at ASC\<close>: the rows in the order of their
  \<open>created_at\<close>; rows with equal \<open>created_at\<close> come in rowid order, as the scan of
  the index on \<open>created_at\<close> yields them. \<open>ORDER BY created_at DESC LIMIT 1\<close> is the
  last row of that order.
\<close>

definition order_by_created_at :: "conn \<Rightarrow> ledger_event list" where
  "order_by_created_at c = sort_key created_at c"

definition get_last_event_hash :: "conn \<Rightarrow> string" where
  "get_last_event_hash c =
     (case rev (order_by_created_at c) of [] \<Rightarrow> GENESIS_HASH | row # _ \<Rightarrow> event_hash row)"

text \<open>The hashed text of a row, as \<open>append_event\<close> and \<open>verify_chain\<close> build it.\<close>

definition material :: "string \<Rightarrow> string \<Rightarrow> string \<Rightarrow> string \<Rightarrow> string \<Rightarrow> string \<Rightarrow> string" where
  "material prev ts etype enttype entid pj = join ''|'' [prev, ts, etype, enttype, entid, pj]"

text \<open>\<open>INSERT INTO ledger_events\<close>: refused when the primary key or the unique index
  on \<open>event_hash\<close> would be violated, and then the table is as before.\<close>

definition insert_event :: "conn \<Rightarrow> ledger_event \<Rightarrow> error + conn" where
  "insert_event c row =
     (if event_id row \<in> set (map event_id c) \<or> event_hash row \<in> set (map event_hash c)
      then Inl IntegrityError else Inr (c @ [row]))"

text \<open>
  \<open>append_event\<close> of ledger.py. \<open>sha256_hex\<close> is the function of that name
  (\<open>hashlib.sha256(s.encode("utf-8")).hexdigest()\<close>), a parameter of the model; \<open>uuid\<close>
  is the value \<open>new_uuid()\<close> returns in this call. The result is what the call returns
  or raises, with the table after the call.
\<close>

definition append_event ::
  "(string \<Rightarrow> string) \<Rightarrow> conn \<Rightarrow> string \<Rightarrow> string \<Rightarrow> string \<Rightarrow> string \<Rightarrow> string \<Rightarrow> json
     \<Rightarrow> (error + string) \<times> conn" where
  "append_event sha256_hex c uuid etype enttype entid ts payload =
     (let prev = get_last_event_hash c;
          pj = canonical_json payload;
          h = sha256_hex (material prev ts etype enttype entid pj)
      in case insert_event c
              \<lparr>event_id = uuid, created_at = ts, event_type = etype, entity_type = enttype,
               entity_id = entid, payload_json = pj, prev_hash = prev, event_hash = h\<rparr> of
           Inl err \<Rightarrow> (Inl err, c)
         | Inr c' \<Rightarrow> (Inr h, c'))"

text \<open>The loop of \<open>verify_chain\<close>: \<open>prev\<close> is the expected previous hash, \<open>idx\<close> the
  1-based index of the next row.\<close>

fun verify_rows :: "(string \<Rightarrow> string) \<Rightarrow> string \<Rightarrow> nat \<Rightarrow> ledger_event list \<Rightarrow> error + string" where
  "verify_rows sha256_hex prev idx [] = Inr prev"
| "verify_rows sha256_hex prev idx (e # es) =
     (if prev_hash e \<noteq> prev then Inl (ChainBroken idx)
      else if sha256_hex (material (prev_hash e) (created_at e) (event_type e) (entity_type e)
                            (entity_id e) (payload_json e)) \<noteq> event_hash e
        then Inl (TamperDetected idx)
      else verify_rows sha256_hex (event_hash e) (Suc idx) es)"

definition verify_chain :: "(string \<Rightarrow> string) \<Rightarrow> conn \<Rightarrow> error + string" where
  "verify_chain sha256_hex c =
     (let events = order_by_created_at c
      in if events = [] then Inr GENESIS_HASH else verify_rows sha256_hex GENESIS_HASH 1 events)"

section \<open>The event store of ai_layer.py\<close>

definition ai_get_last_event_hash :: "conn \<Rightarrow> string" where
  "ai_get_last_event_hash c =
     (case rev (order_by_created_at c) of [] \<Rightarrow> ''GENESIS'' | row # _ \<Rightarrow> event_hash row)"

definition ai_append_event ::
  "(string \<Rightarrow> string) \<Rightarrow> conn \<Rightarrow> string \<Rightarrow> string \<Rightarrow> string \<Rightarrow> string \<Rightarrow> string \<Rightarrow> json
     \<Rightarrow> (error + string) \<times> conn" where
  "ai_append_event sha256_hex c uuid etype enttype entid ts payload =
     (let prev = ai_get_last_event_hash c;
          pj = canonical_json payload;
          h = sha256_hex (join ''|'' [prev, ts, etype, enttype, entid, pj])
      in case insert_event c
              \<lparr>event_id = uuid, created_at = ts, event_type = etype, entity_type = enttype,
               entity_id = entid, payload_json = pj, prev_hash = prev, event_hash = h\<rparr> of
           Inl err \<Rightarrow> (Inl err, c)
         | Inr c' \<Rightarrow> (Inr h, c'))"

section \<open>Sequences of appends\<close>

text \<open>
  One call of \<open>append_event\<close>: the identifier drawn for the row and the arguments of
  the call. \<open>append_all\<close> performs the calls one at a time, in order, and stops at the
  first that raises; it returns the hashes the calls returned and the final table.
\<close>

record append_call =
  call_uuid :: string
  call_event_type :: string
  call_entity_type :: string
  call_entity_id :: string
  call_created_at :: string
  call_payload :: json

fun append_all :: "(string \<Rightarrow> string) \<Rightarrow> conn \<Rightarrow> append_call list \<Rightarrow> error + (string list \<times> conn)" where
  "append_all sha256_hex c [] = Inr ([], c)"
| "append_all sha256_hex c (a # as) =
     (case append_event sha256_hex c (call_uuid a) (call_event_type a) (call_entity_type a)
             (call_entity_id a) (call_created_at a) (call_payload a) of
        (Inl err, _) \<Rightarrow> Inl err
      | (Inr h, c') \<Rightarrow>
          (case append_all sha256_hex c' as of
             Inl err \<Rightarrow> Inl err
           | Inr (hs, c'') \<Rightarrow> Inr (h # hs, c'')))"

fun ai_append_all :: "(string \<Rightarrow> string) \<Rightarrow> conn \<Rightarrow> append_call list \<Rightarrow> error + (string list \<times> conn)" where
  "ai_append_all sha256_hex c [] = Inr ([], c)"
| "ai_append_all sha256_hex c (a # as) =
     (case ai_append_event sha256_hex c (call_uuid a) (call_event_type a) (call_entity_type a)
             (call_entity_id a) (call_created_at a) (call_payload a) of
        (Inl err, _) \<Rightarrow> Inl err
      | (Inr h, c') \<Rightarrow>
          (case ai_append_all sha256_hex c' as of
             Inl err \<Rightarrow> Inl err
           | Inr (hs, c'') \<Rightarrow> Inr (h # hs, c'')))"

text \<open>
  A stand-in for SHA-256 where a theorem is applied to a concrete store: the hexadecimal
  encoding of the text. Like the hex digest of an ideal hash it is injective and made of
  the characters \<open>0-9a-f\<close>.
\<close>

definition hex_digest :: "string \<Rightarrow> string" where
  "hex_digest s = concat (map (\<lambda>c. [hexdigit (of_char c div 16), hexdigit (of_char c)]) s)"

section \<open>Tampering with a stored row\<close>

text \<open>
  The columns of \<open>ledger_events\<close>, and a row after one column has been overwritten
  (what \<open>UPDATE ledger_events SET column = v\<close> does to the row it selects).
\<close>

datatype field =
  EventId | CreatedAt | EventType | EntityType | EntityId | PayloadJson | PrevHash | EventHash

fun get_field :: "field \<Rightarrow> ledger_event \<Rightarrow> string" where
  "get_field EventId e = event_id e"
| "get_field CreatedAt e = created_at e"
| "get_field EventType e = event_type e"
| "get_field EntityType e = entity_type e"
| "get_field EntityId e = entity_id e"
| "get_field PayloadJson e = payload_json e"
| "get_field PrevHash e = prev_hash e"
| "get_field EventHash e = event_hash e"

fun set_field :: "field \<Rightarrow> string \<Rightarrow> ledger_event \<Rightarrow> ledger_event" where
  "set_field EventId v e = e\<lparr>event_id := v\<rparr>"
| "set_field CreatedAt v e = e\<lparr>created_at := v\<rparr>"
| "set_field EventType v e = e\<lparr>event_type := v\<rparr>"
| "set_field EntityType v e = e\<lparr>entity_type := v\<rparr>"
| "set_field EntityId v e = e\<lparr>entity_id := v\<rparr>"
| "set_field PayloadJson v e = e\<lparr>payload_json := v\<rparr>"
| "set_field PrevHash v e = e\<lparr>prev_hash := v\<rparr>"
| "set_field EventHash v e = e\<lparr>event_hash := v\<rparr>"

text \<open>The text \<open>verify_chain\<close> hashes for a stored row.\<close>

definition row_material :: "ledger_event \<Rightarrow> string" where
  "row_material e =
     material (prev_hash e) (created_at e) (event_type e) (entity_type e) (entity_id e)
       (payload_json e)"

text \<open>The hash of the last row in rowid order, \<open>GENESIS\<close> for the empty table.\<close>

definition chain_tip :: "conn \<Rightarrow> string" where
  "chain_tip c = (if c = [] then GENESIS_HASH else event_hash (last c))"

text \<open>Two tables hold the same events when their rows agree in every column but the
  random \<open>event_id\<close>; likewise two calls.\<close>

definition erase_id :: "ledger_event \<Rightarrow> ledger_event" where
  "erase_id e = e\<lparr>event_id := []\<rparr>"

definition erase_uuid :: "append_call \<Rightarrow> append_call" where
  "erase_uuid a = a\<lparr>call_uuid := []\<rparr>"

text \<open>A call with fixed small arguments, for concrete stores.\<close>

definition example_call :: "string \<Rightarrow> string \<Rightarrow> append_call" where
  "example_call uuid ts =
     \<lparr>call_uuid = uuid, call_event_type = ''t'', call_entity_type = ''d'',
      call_entity_id = ''1'', call_created_at = ts, call_payload = JDict []\<rparr>"

text \<open>The table after the calls with \<open>created_at\<close> 1 and then 2, under the
  stand-in digest.\<close>

definition example_chain :: conn where
  "example_chain =
     [\<lparr>event_id = ''u1'', created_at = ''1'', event_type = ''t'', entity_type = ''d'',
       entity_id = ''1'', payload_json = ''{}'', prev_hash = ''GENESIS'',
       event_hash = hex_digest ''GENESIS|1|t|d|1|{}''\<rparr>,
      \<lparr>event_id = ''u2'', created_at = ''2'', event_type = ''t'', entity_type = ''d'',
       entity_id = ''1'', payload_json = ''{}'', prev_hash = hex_digest ''GENESIS|1|t|d|1|{}'',
       event_hash = hex_digest (hex_digest ''GENESIS|1|t|d|1|{}'' @ ''|2|t|d|1|{}'')\<rparr>]"

text \<open>The table after the calls with \<open>created_at\<close> 2 and then 1, under the
  stand-in digest.\<close>

definition example_rows :: conn where
  "example_rows =
     [\<lparr>event_id = ''u1'', created_at = ''2'', event_type = ''t'', entity_type = ''d'',
       entity_id = ''1'', payload_json = ''{}'', prev_hash = ''GENESIS'',
       event_hash = hex_digest ''GENESIS|2|t|d|1|{}''\<rparr>,
      \<lparr>event_id = ''u2'', created_at = ''1'', event_type = ''t'', entity_type = ''d'',
       entity_id = ''1'', payload_json = ''{}'', prev_hash = hex_digest ''GENESIS|2|t|d|1|{}'',
       event_hash = hex_digest (hex_digest ''GENESIS|2|t|d|1|{}'' @ ''|1|t|d|1|{}'')\<rparr>]"

section \<open>Anchors (ledger.py)\<close>

text \<open>
  The state the programs work on: the table \<open>ledger_events\<close> of the database, the
  anchor file and the anchor history file (two different files; \<open>None\<close> is a file
  that does not exist).
\<close>

record world =
  ledger_events :: conn
  anchor_file :: "string option"
  anchor_history :: "string option"

definition file_text :: "string option \<Rightarrow> string" where
  "file_text f = (case f of None \<Rightarrow> [] | Some s \<Rightarrow> s)"

definition write_anchor_files :: "world \<Rightarrow> string \<Rightarrow> string \<Rightarrow> string \<Rightarrow> world" where
  "write_anchor_files w latest_hash note ts =
     w\<lparr>anchor_file :=
         Some (''latest_hash='' @ latest_hash @ [LF] @ ''timestamp='' @ ts @ [LF]
               @ ''note='' @ note @ [LF]),
       anchor_history :=
         Some (file_text (anchor_history w) @ ts @ '' | '' @ latest_hash @ '' | '' @ note @ [LF])\<rparr>"

definition parse_anchor_line :: "(string \<rightharpoonup> string) \<Rightarrow> string \<Rightarrow> (string \<rightharpoonup> string)" where
  "parse_anchor_line data line0 =
     (let line = strip line0
      in if CHR ''='' \<in> set line
         then (case split_eq line of (k, v) \<Rightarrow> data(strip k \<mapsto> strip v))
         else data)"

definition read_anchor_file :: "world \<Rightarrow> error + (string \<rightharpoonup> string)" where
  "read_anchor_file w =
     (case anchor_file w of
        None \<Rightarrow> Inl AnchorNotFound
      | Some content \<Rightarrow> Inr (foldl parse_anchor_line Map.empty (readlines [] (read_text content))))"

definition verify_anchor :: "(string \<Rightarrow> string) \<Rightarrow> world \<Rightarrow> error + unit" where
  "verify_anchor sha256_hex w =
     (case verify_chain sha256_hex (ledger_events w) of
        Inl err \<Rightarrow> Inl err
      | Inr db_last \<Rightarrow>
          (case read_anchor_file w of
             Inl err \<Rightarrow> Inl err
           | Inr data \<Rightarrow>
               (case data ''latest_hash'' of
                  None \<Rightarrow> Inl MissingLatestHash
                | Some anchored \<Rightarrow>
                    if anchored = [] then Inl MissingLatestHash
                    else if db_last \<noteq> anchored then Inl (AnchorMismatch db_last anchored)
                    else Inr ())))"

text \<open>\<open>write_anchor_files\<close> of ai_layer.py\<close>

definition ai_write_anchor_files :: "world \<Rightarrow> string \<Rightarrow> string \<Rightarrow> string \<Rightarrow> world" where
  "ai_write_anchor_files w latest_hash note ts =
     w\<lparr>anchor_file :=
         Some (''latest_hash='' @ latest_hash @ [LF] @ ''timestamp='' @ ts @ [LF]
               @ ''note='' @ note @ [LF]),
       anchor_history :=
         Some (file_text (anchor_history w) @ ts @ '' | '' @ latest_hash @ '' | '' @ note @ [LF])\<rparr>"

section \<open>Publishing (ledger.py)\<close>

text \<open>
  What \<open>send_email\<close> reads from outside the program: the environment variables, the
  builtin \<open>int\<close> on the port string (\<open>None\<close> where it raises \<open>ValueError\<close>), and
  whether building and sending the message over SMTP with the given host, port, user,
  password, sender, recipient, subject and body raises.
\<close>

record outside =
  environ :: "string \<Rightarrow> string option"
  int_of :: "string \<Rightarrow> int option"
  smtp_raises :: "string \<Rightarrow> int \<Rightarrow> string \<Rightarrow> string \<Rightarrow> string \<Rightarrow> string \<Rightarrow> string \<Rightarrow> string \<Rightarrow> bool"

definition env :: "outside \<Rightarrow> string \<Rightarrow> string option \<Rightarrow> string option" where
  "env out name dflt =
     (case environ out name of
        None \<Rightarrow> dflt
      | Some v \<Rightarrow> if strip v \<noteq> [] then Some v else dflt)"

text \<open>\<open>send_email\<close>: \<open>None\<close> when it returns, the exception when it raises. A string
  from \<open>env\<close> is true in a condition when it is there and not empty.\<close>

definition send_email :: "outside \<Rightarrow> string \<Rightarrow> string \<Rightarrow> error option" where
  "send_email out subject body =
     (let host = env out ''LEDGER_SMTP_HOST'' None;
          user = env out ''LEDGER_SMTP_USER'' None;
          pwd = env out ''LEDGER_SMTP_PASS'' None;
          mail_from = env out ''LEDGER_EMAIL_FROM'' None;
          mail_to = env out ''LEDGER_EMAIL_TO'' None
      in case int_of out (file_text (env out ''LEDGER_SMTP_PORT'' (Some ''587''))) of
           None \<Rightarrow> Some PortNotInt
         | Some port \<Rightarrow>
             if file_text host = [] \<or> file_text user = [] \<or> file_text pwd = []
                \<or> file_text mail_from = [] \<or> file_text mail_to = []
             then Some MissingSmtpEnv
             else if smtp_raises out (file_text host) port (file_text user) (file_text pwd)
                       (file_text mail_from) (file_text mail_to) subject body
               then Some SmtpFailure
             else None)"

text \<open>The three readings of the clock in \<open>daily_publish\<close>: \<open>utc_now_iso()\<close> and the
  two calls of \<open>today_utc()\<close>. \<open>anchor_path\<close> and \<open>history_path\<close> are the names of
  the two files of the world.\<close>

record clock =
  now_iso :: string
  today_note :: string
  today_payload :: string

definition daily_publish ::
  "(string \<Rightarrow> string) \<Rightarrow> outside \<Rightarrow> clock \<Rightarrow> world \<Rightarrow> string \<Rightarrow> string \<Rightarrow> string
     \<Rightarrow> (error + unit) \<times> world" where
  "daily_publish sha256_hex out clk w anchor_path history_path label =
     (case verify_chain sha256_hex (ledger_events w) of
        Inl err \<Rightarrow> (Inl err, w)
      | Inr last_hash \<Rightarrow>
          (let ts = now_iso clk;
               note = strip (''DAILY_ANCHOR '' @ today_note clk @ '' '' @ label);
               w1 = write_anchor_files w last_hash note ts
           in case verify_anchor sha256_hex w1 of
                Inl err \<Rightarrow> (Inl err, w1)
              | Inr _ \<Rightarrow>
                  (let payload = JDict
                         [(''type'', JStr ''daily_anchor''),
                          (''date_utc'', JStr (today_payload clk)),
                          (''label'', JStr label),
                          (''timestamp'', JStr ts),
                          (''latest_hash'', JStr last_hash),
                          (''anchor_file'', JStr anchor_path),
                          (''anchor_history'', JStr history_path)];
                       subject = ''History Anchor '' @ today_payload clk @ '' '' @ take 12 last_hash;
                       body = canonical_json payload
                   in case send_email out subject body of
                        Some err \<Rightarrow> (Inl err, w1)
                      | None \<Rightarrow> (Inr (), w1))))"

section \<open>Anchoring a final decision (finalize.py)\<close>

datatype py_error = IndexError

definition read_prev_anchor :: "world \<Rightarrow> py_error + string" where
  "read_prev_anchor w =
     (case anchor_file w of
        None \<Rightarrow> Inr ''GENESIS''
      | Some raw \<Rightarrow>
          (let content = strip (read_text raw)
           in if content = [] then Inr ''GENESIS''
              else (case find (\<lambda>line. startswith (strip line) ''latest_hash='')
                               (splitlines False [] content) of
                      Some line \<Rightarrow> Inr (strip (snd (split_eq (strip line))))
                    | None \<Rightarrow>
                        (case splitlines False [] content of
                           [] \<Rightarrow> Inl IndexError
                         | first # _ \<Rightarrow> Inr (strip first)))))"

definition append_history_line :: "world \<Rightarrow> string \<Rightarrow> world" where
  "append_history_line w record_line =
     w\<lparr>anchor_history :=
         Some ((case anchor_history w of None \<Rightarrow> [] | Some old \<Rightarrow> read_text old)
               @ record_line @ [LF])\<rparr>"

text \<open>\<open>now\<close> is what \<open>now_utc_iso()\<close> returns in this call.\<close>

definition write_anchor_file :: "world \<Rightarrow> string \<Rightarrow> string \<Rightarrow> string \<Rightarrow> world" where
  "write_anchor_file w new_hash note now =
     w\<lparr>anchor_file :=
         Some (''latest_hash='' @ new_hash @ [LF] @ ''timestamp='' @ now @ [LF]
               @ ''note='' @ note @ [LF])\<rparr>"

definition anchor_record ::
  "(string \<Rightarrow> string) \<Rightarrow> world \<Rightarrow> string \<Rightarrow> string \<Rightarrow> string \<Rightarrow> (py_error + string) \<times> world" where
  "anchor_record sha256 w now record_line note =
     (case read_prev_anchor w of
        Inl err \<Rightarrow> (Inl err, w)
      | Inr prev \<Rightarrow>
          (let new_hash = sha256 (prev @ [LF] @ record_line);
               w1 = append_history_line w (record_line @ '' | '' @ new_hash @ '' | '' @ note);
               w2 = write_anchor_file w1 new_hash note now
           in (Inr new_hash, w2)))"

text \<open>A text without the line endings of text-mode reading.\<close>

definition one_line :: "string \<Rightarrow> bool" where
  "one_line s = (LF \<notin> set s \<and> CR \<notin> set s)"

text \<open>A text that \<open>strip\<close> leaves as it is: empty, or with no white space at either end.\<close>

definition trimmed :: "string \<Rightarrow> bool" where
  "trimmed s = (s = [] \<or> (\<not> is_space (hd s) \<and> \<not> is_space (last s)))"

text \<open>An environment without the SMTP variables, and a clock, for concrete runs.\<close>

definition no_mail :: outside where
  "no_mail = \<lparr>environ = (\<lambda>name. None), int_of = (\<lambda>s. Some 587),
              smtp_raises = (\<lambda>host port user pwd mail_from mail_to subject body. False)\<rparr>"

definition example_clock :: clock where
  "example_clock = \<lparr>now_iso = ''2025-01-01T00:00:00Z'', today_note = ''2025-01-01'',
                    today_payload = ''2025-01-01''\<rparr>"

text \<open>A table with one row whose \<open>created_at\<close> contains a line break, as
  \<open>append_event\<close> stores it on an empty table under the stand-in digest.\<close>

definition newline_rows :: conn where
  "newline_rows =
     [\<lparr>event_id = ''u1'', created_at = ''1'' @ [LF] @ ''2'', event_type = ''t'',
       entity_type = ''d'', entity_id = ''1'', payload_json = ''{}'', prev_hash = ''GENESIS'',
       event_hash = hex_digest (''GENESIS|1'' @ [LF] @ ''2|t|d|1|{}'')\<rparr>]"


section \<open>Appending and verifying\<close>

lemma order_by_sorted:
  "sorted (map created_at c) \<Longrightarrow> order_by_created_at c = c"
  by (simp add: order_by_created_at_def sort_key_id_if_sorted)

lemma last_hash_sorted:
  "sorted (map created_at c) \<Longrightarrow> get_last_event_hash c = chain_tip c"
  by (cases c rule: rev_cases)
    (simp_all add: get_last_event_hash_def order_by_sorted chain_tip_def)

lemma verify_rows_append:
  "verify_rows H prev idx (xs @ ys) =
     (case verify_rows H prev idx xs of
        Inl err \<Rightarrow> Inl err
      | Inr p \<Rightarrow> verify_rows H p (idx + length xs) ys)"
  by (induction xs arbitrary: prev idx) (auto split: sum.splits)

lemma verify_chain_rows:
  "verify_chain H c = verify_rows H GENESIS_HASH 1 (order_by_created_at c)"
  by (cases "order_by_created_at c") (simp_all add: verify_chain_def Let_def)

lemma verify_chain_sorted:
  "sorted (map created_at c) \<Longrightarrow> verify_chain H c = verify_rows H GENESIS_HASH 1 c"
  by (simp add: verify_chain_rows order_by_sorted)

lemma append_event_sorted:
  assumes srt: "sorted (map created_at c)"
    and le: "\<forall>e \<in> set c. created_at e \<le> ts"
    and ok: "verify_rows H GENESIS_HASH 1 c = Inr (chain_tip c)"
    and app: "append_event H c uuid etype enttype entid ts payload = (Inr h, c')"
  shows "sorted (map created_at c') \<and> verify_rows H GENESIS_HASH 1 c' = Inr (chain_tip c')
         \<and> chain_tip c' = h \<and> map created_at c' = map created_at c @ [ts]"
proof -
  let ?row = "\<lparr>event_id = uuid, created_at = ts, event_type = etype, entity_type = enttype,
               entity_id = entid, payload_json = canonical_json payload,
               prev_hash = chain_tip c,
               event_hash = H (material (chain_tip c) ts etype enttype entid (canonical_json payload))\<rparr>"
  from app srt have c': "c' = c @ [?row]" and h: "h = event_hash ?row"
    by (auto simp: append_event_def insert_event_def Let_def last_hash_sorted split: if_splits)
  have s: "sorted (map created_at c')"
    using srt le by (simp add: c' sorted_append)
  have t: "chain_tip c' = h" by (simp add: c' h chain_tip_def)
  have v: "verify_rows H GENESIS_HASH 1 c' = Inr (chain_tip c')"
    unfolding t unfolding c' verify_rows_append ok by (simp add: h)
  show ?thesis using s t v by (simp add: c')
qed

lemma append_all_sorted:
  "sorted (map created_at c @ map call_created_at calls) \<Longrightarrow>
   verify_rows H GENESIS_HASH 1 c = Inr (chain_tip c) \<Longrightarrow>
   append_all H c calls = Inr (hs, c') \<Longrightarrow>
   sorted (map created_at c') \<and> verify_rows H GENESIS_HASH 1 c' = Inr (chain_tip c')
     \<and> chain_tip c' = (if calls = [] then chain_tip c else last hs) \<and> length hs = length calls"
proof (induction calls arbitrary: c hs)
  case Nil
  then show ?case by simp
next
  case (Cons a as)
  from Cons.prems(3) obtain h c1 hs1 where
    a: "append_event H c (call_uuid a) (call_event_type a) (call_entity_type a)
             (call_entity_id a) (call_created_at a) (call_payload a) = (Inr h, c1)"
    and r: "append_all H c1 as = Inr (hs1, c')" and hs: "hs = h # hs1"
    by (auto split: prod.splits sum.splits)
  have srt: "sorted (map created_at c)"
    and le: "\<forall>e \<in> set c. created_at e \<le> call_created_at a"
    using Cons.prems(1) by (auto simp: sorted_append)
  from append_event_sorted [OF srt le Cons.prems(2) a]
  have 1: "sorted (map created_at c1)"
    and 2: "verify_rows H GENESIS_HASH 1 c1 = Inr (chain_tip c1)"
    and 3: "chain_tip c1 = h"
    and 4: "map created_at c1 = map created_at c @ [call_created_at a]"
    by blast+
  have 5: "sorted (map created_at c1 @ map call_created_at as)"
    using Cons.prems(1) by (simp add: 4)
  from Cons.IH [OF 5 2 r] show ?case
    by (auto simp: hs 3)
qed

text \<open>
  C1 (as amended). When the calls of \<open>append_event\<close> on an initially empty table carry
  \<open>created_at\<close> values that never decrease and every call returns, \<open>verify_chain\<close>
  afterwards raises nothing and returns the hash the last call returned; with no call at
  all it returns \<open>GENESIS\<close>.
\<close>

theorem append_then_verify:
  assumes "sorted (map call_created_at calls)"
    and "append_all H [] calls = Inr (hs, c)"
  shows "verify_chain H c = Inr (if calls = [] then GENESIS_HASH else last hs)"
proof -
  have "verify_rows H GENESIS_HASH 1 [] = Inr (chain_tip [])"
    by (simp add: chain_tip_def)
  from append_all_sorted [OF _ this assms(2)] assms(1)
  have "sorted (map created_at c)" and "verify_rows H GENESIS_HASH 1 c = Inr (chain_tip c)"
    and "chain_tip c = (if calls = [] then chain_tip [] else last hs)"
    by simp_all
  then show ?thesis
    by (simp add: verify_chain_sorted chain_tip_def)
qed

lemma two_appends_return:
  "case append_all hex_digest [] [example_call ''u1'' ''1'', example_call ''u2'' ''2''] of
     Inl err \<Rightarrow> False | Inr r \<Rightarrow> True"
  by code_simp

theorem append_then_verify_witness:
  "sorted (map call_created_at [example_call ''u1'' ''1'', example_call ''u2'' ''2''])
   \<and> (case append_all hex_digest [] [example_call ''u1'' ''1'', example_call ''u2'' ''2''] of
        Inl err \<Rightarrow> False
      | Inr (hs, c) \<Rightarrow> verify_chain hex_digest c = Inr (last hs))"
proof -
  let ?calls = "[example_call ''u1'' ''1'', example_call ''u2'' ''2'']"
  have s: "sorted (map call_created_at ?calls)"
    by (simp add: example_call_def)
  obtain hs c where a: "append_all hex_digest [] ?calls = Inr (hs, c)"
    using two_appends_return by (cases "append_all hex_digest [] ?calls") auto
  from append_then_verify [OF s a] show ?thesis
    using s a by simp
qed

text \<open>
  C1 as stated fails: a call with an earlier \<open>created_at\<close> after one with a later
  \<open>created_at\<close> is linked to the row that is last by \<open>created_at\<close>, but
  \<open>verify_chain\<close> reads it first and reports a broken chain at event 1.
\<close>

theorem append_out_of_order_counterexample:
  "case append_all hex_digest [] [example_call ''u1'' ''2'', example_call ''u2'' ''1''] of
     Inl err \<Rightarrow> False
   | Inr (hs, c) \<Rightarrow> verify_chain hex_digest c = Inl (ChainBroken 1)"
  by code_simp

section \<open>Duplicates\<close>

text \<open>
  C6. When the hash \<open>append_event\<close> computes is already the \<open>event_hash\<close> of a stored
  row, the call fails with the \<open>IntegrityError\<close> of the unique index on
  \<open>event_hash\<close> (the duplicate-event error of the specification) and the table is as
  it was: no row is added.
\<close>

theorem append_event_duplicate:
  assumes "sha256_hex (material (get_last_event_hash c) ts etype enttype entid
                         (canonical_json payload)) \<in> set (map event_hash c)"
  shows "append_event sha256_hex c uuid etype enttype entid ts payload = (Inl IntegrityError, c)"
  using assms by (simp add: append_event_def insert_event_def Let_def)

lemma example_rows_appended:
  "append_all hex_digest [] [example_call ''u1'' ''2'', example_call ''u2'' ''1'']
     = Inr (map event_hash example_rows, example_rows)"
  by code_simp

theorem append_event_duplicate_witness:
  "hex_digest (material (get_last_event_hash example_rows) ''1'' ''t'' ''d'' ''1''
                 (canonical_json (JDict []))) \<in> set (map event_hash example_rows)
   \<and> append_event hex_digest example_rows ''u3'' ''t'' ''d'' ''1'' ''1'' (JDict [])
       = (Inl IntegrityError, example_rows)"
proof -
  have h: "hex_digest (material (get_last_event_hash example_rows) ''1'' ''t'' ''d'' ''1''
                 (canonical_json (JDict []))) \<in> set (map event_hash example_rows)"
    by code_simp
  from append_event_duplicate [of hex_digest example_rows "''1''" "''t''" "''d''" "''1''"
      "JDict []" "''u3''", OF h]
  show ?thesis
    using h by simp
qed

section \<open>Two implementations\<close>

lemma insort_key_map_inv:
  assumes "\<And>x. f (g x) = f x"
  shows "insort_key f (g x) (map g ys) = map g (insort_key f x ys)"
  by (induction ys) (simp_all add: assms)

lemma sort_key_map_inv:
  assumes "\<And>x. f (g x) = f x"
  shows "sort_key f (map g xs) = map g (sort_key f xs)"
  using assms by (induction xs) (simp_all add: insort_key_map_inv)

lemma order_by_erase_id:
  "order_by_created_at (map erase_id c) = map erase_id (order_by_created_at c)"
  unfolding order_by_created_at_def
  by (rule sort_key_map_inv) (simp add: erase_id_def)

lemma last_hash_erase_id:
  "get_last_event_hash (map erase_id c) = get_last_event_hash c"
  by (cases "order_by_created_at c" rule: rev_cases)
    (simp_all add: get_last_event_hash_def order_by_erase_id rev_map erase_id_def)

lemma ai_last_hash: "ai_get_last_event_hash c = get_last_event_hash c"
  by (simp add: ai_get_last_event_hash_def get_last_event_hash_def GENESIS_HASH_def
      split: list.splits)

lemma same_events_last_hash:
  "map erase_id c1 = map erase_id c2 \<Longrightarrow> get_last_event_hash c1 = get_last_event_hash c2"
  by (metis last_hash_erase_id)

lemma append_event_both:
  assumes same: "map erase_id c1 = map erase_id c2"
    and l: "append_event H c1 u1 etype enttype entid ts payload = (Inr h1, c1')"
    and a: "ai_append_event H c2 u2 etype enttype entid ts payload = (Inr h2, c2')"
  shows "h1 = h2 \<and> map erase_id c1' = map erase_id c2'"
proof -
  have t: "get_last_event_hash c1 = get_last_event_hash c2"
    by (rule same_events_last_hash [OF same])
  from l a show ?thesis
    by (auto simp: append_event_def ai_append_event_def insert_event_def Let_def ai_last_hash
        material_def t same erase_id_def split: if_splits)
qed

lemma append_all_both:
  "map erase_id c1 = map erase_id c2 \<Longrightarrow>
   map erase_uuid calls1 = map erase_uuid calls2 \<Longrightarrow>
   append_all H c1 calls1 = Inr (hs1, c1') \<Longrightarrow>
   ai_append_all H c2 calls2 = Inr (hs2, c2') \<Longrightarrow>
   hs1 = hs2 \<and> map erase_id c1' = map erase_id c2'"
proof (induction calls1 arbitrary: calls2 c1 c2 hs1 hs2)
  case Nil
  then show ?case by auto
next
  case (Cons a as)
  from Cons.prems(2) obtain b bs where calls2: "calls2 = b # bs"
    and ab: "erase_uuid a = erase_uuid b" and rest: "map erase_uuid as = map erase_uuid bs"
    by (cases calls2) auto
  from ab have args: "call_event_type a = call_event_type b"
    "call_entity_type a = call_entity_type b" "call_entity_id a = call_entity_id b"
    "call_created_at a = call_created_at b" "call_payload a = call_payload b"
    by (cases a; cases b; simp add: erase_uuid_def)+
  from Cons.prems(3) obtain h1 d1 t1 where
    l: "append_event H c1 (call_uuid a) (call_event_type a) (call_entity_type a)
          (call_entity_id a) (call_created_at a) (call_payload a) = (Inr h1, d1)"
    and lr: "append_all H d1 as = Inr (t1, c1')" and hs1: "hs1 = h1 # t1"
    by (auto split: prod.splits sum.splits)
  from Cons.prems(4) obtain h2 d2 t2 where
    r: "ai_append_event H c2 (call_uuid b) (call_event_type a) (call_entity_type a)
          (call_entity_id a) (call_created_at a) (call_payload a) = (Inr h2, d2)"
    and rr: "ai_append_all H d2 bs = Inr (t2, c2')" and hs2: "hs2 = h2 # t2"
    by (auto simp: calls2 args split: prod.splits sum.splits)
  from append_event_both [OF Cons.prems(1) l r]
  have h: "h1 = h2" and d: "map erase_id d1 = map erase_id d2" by blast+
  from Cons.IH [OF d rest lr rr] show ?case
    by (simp add: hs1 hs2 h)
qed

text \<open>
  C3. \<open>append_event\<close> of ledger.py and \<open>append_event\<close> of ai_layer.py, each run on
  its own initially empty table with the same sequence of arguments (the random
  \<open>event_id\<close> of each row apart), return the same sequence of hashes and store the same
  \<open>event_hash\<close> values.
\<close>

theorem two_stores_same_hashes:
  assumes "map erase_uuid calls1 = map erase_uuid calls2"
    and "append_all sha256_hex [] calls1 = Inr (hs1, c1)"
    and "ai_append_all sha256_hex [] calls2 = Inr (hs2, c2)"
  shows "hs1 = hs2 \<and> map event_hash c1 = map event_hash c2"
proof -
  from append_all_both [OF _ assms] have "hs1 = hs2" and e: "map erase_id c1 = map erase_id c2"
    by simp_all
  from e have "map (event_hash \<circ> erase_id) c1 = map (event_hash \<circ> erase_id) c2"
    by (metis map_map)
  moreover have "event_hash \<circ> erase_id = event_hash"
    by (rule ext) (simp add: erase_id_def)
  ultimately show ?thesis using \<open>hs1 = hs2\<close> by simp
qed

lemma two_stores_return:
  "(case append_all hex_digest [] [example_call ''u1'' ''1'', example_call ''u2'' ''2''] of
      Inl err \<Rightarrow> False | Inr r \<Rightarrow> True)
   \<and> (case ai_append_all hex_digest [] [example_call ''v1'' ''1'', example_call ''v2'' ''2''] of
      Inl err \<Rightarrow> False | Inr r \<Rightarrow> True)"
  by code_simp

theorem two_stores_same_hashes_witness:
  "map erase_uuid [example_call ''u1'' ''1'', example_call ''u2'' ''2'']
     = map erase_uuid [example_call ''v1'' ''1'', example_call ''v2'' ''2'']
   \<and> (case (append_all hex_digest [] [example_call ''u1'' ''1'', example_call ''u2'' ''2''],
             ai_append_all hex_digest [] [example_call ''v1'' ''1'', example_call ''v2'' ''2'']) of
        (Inr (hs1, c1), Inr (hs2, c2)) \<Rightarrow> hs1 = hs2 \<and> map event_hash c1 = map event_hash c2
      | _ \<Rightarrow> False)"
proof -
  let ?c1 = "[example_call ''u1'' ''1'', example_call ''u2'' ''2'']"
  let ?c2 = "[example_call ''v1'' ''1'', example_call ''v2'' ''2'']"
  have e: "map erase_uuid ?c1 = map erase_uuid ?c2"
    by (simp add: example_call_def erase_uuid_def)
  obtain hs1 c1 where a: "append_all hex_digest [] ?c1 = Inr (hs1, c1)"
    using two_stores_return by (cases "append_all hex_digest [] ?c1") auto
  obtain hs2 c2 where b: "ai_append_all hex_digest [] ?c2 = Inr (hs2, c2)"
    using two_stores_return by (cases "ai_append_all hex_digest [] ?c2") auto
  from two_stores_same_hashes [OF e a b] show ?thesis
    using e a b by simp
qed

section \<open>Tampering\<close>

lemma example_chain_appended:
  "append_all hex_digest [] [example_call ''u1'' ''1'', example_call ''u2'' ''2'']
     = Inr (map event_hash example_chain, example_chain)"
  by code_simp

lemma material_changed:
  assumes "f \<noteq> EventId" "f \<noteq> EventHash" "v \<noteq> get_field f e"
  shows "row_material (set_field f v e) \<noteq> row_material e"
  using assms by (cases f) (simp_all add: row_material_def material_def)

lemma verify_rows_at:
  assumes i: "i < length rows"
  shows "verify_rows H prev idx (rows[i := e']) =
     (case verify_rows H prev idx (take i rows) of
        Inl err \<Rightarrow> Inl err
      | Inr p \<Rightarrow> verify_rows H p (idx + i) (e' # drop (Suc i) rows))"
proof -
  have "rows[i := e'] = take i rows @ e' # drop (Suc i) rows"
    using i by (rule upd_conv_take_nth_drop)
  then show ?thesis
    using i by (auto simp: verify_rows_append min_def split: sum.splits)
qed

lemma verify_rows_valid_at:
  assumes i: "i < length rows" and ok: "verify_rows H prev idx rows = Inr tip"
  shows "\<exists>p. verify_rows H prev idx (take i rows) = Inr p \<and> prev_hash (rows ! i) = p
           \<and> H (row_material (rows ! i)) = event_hash (rows ! i)"
proof -
  have "rows = rows[i := rows ! i]" by simp
  with verify_rows_at [OF i, of H prev idx "rows ! i"] ok
  have "(case verify_rows H prev idx (take i rows) of
        Inl err \<Rightarrow> Inl err
      | Inr p \<Rightarrow> verify_rows H p (idx + i) (rows ! i # drop (Suc i) rows)) = Inr tip"
    by simp
  then show ?thesis
    by (auto simp: row_material_def split: sum.splits if_splits)
qed

text \<open>
  C2 (as amended). In a table that \<open>verify_chain\<close> accepts, let the row at position
  \<open>i\<close> of the \<open>created_at\<close> order have one column overwritten with a different
  value, the row keeping its position in that order. If the column is \<open>prev_hash\<close>,
  \<open>verify_chain\<close> raises the broken-chain error at event \<open>i + 1\<close>; if it is
  \<open>event_id\<close>, which is not hashed, \<open>verify_chain\<close> returns the tip as before; for
  every other column, unless SHA-256 gives the changed text of the row the hash of the
  original text, it raises the tamper error at event \<open>i + 1\<close>.
\<close>

theorem tamper_detected:
  assumes valid: "verify_chain H c = Inr tip"
    and i: "i < length (order_by_created_at c)"
    and e: "e = order_by_created_at c ! i"
    and mut: "order_by_created_at c' = (order_by_created_at c)[i := set_field f v e]"
    and v: "v \<noteq> get_field f e"
    and nocoll: "H (row_material (set_field f v e)) = H (row_material e)
                   \<longrightarrow> row_material (set_field f v e) = row_material e"
  shows "verify_chain H c' =
           (if f = EventId then Inr tip
            else if f = PrevHash then Inl (ChainBroken (Suc i))
            else Inl (TamperDetected (Suc i)))"
proof -
  let ?rows = "order_by_created_at c"
  let ?e' = "set_field f v e"
  from valid have ok: "verify_rows H GENESIS_HASH 1 ?rows = Inr tip"
    by (simp add: verify_chain_rows)
  from verify_rows_valid_at [OF i ok] obtain p where
    pre: "verify_rows H GENESIS_HASH 1 (take i ?rows) = Inr p"
    and p: "prev_hash e = p" and h: "H (row_material e) = event_hash e"
    by (auto simp: e)
  have step: "verify_chain H c' = verify_rows H p (Suc i) (?e' # drop (Suc i) ?rows)"
    using pre by (simp add: verify_chain_rows mut verify_rows_at [OF i])
  have "?rows[i := e] = ?rows"
    by (simp add: e)
  with verify_rows_at [OF i, of H GENESIS_HASH 1 e] pre ok
  have orig: "verify_rows H p (Suc i) (e # drop (Suc i) ?rows) = Inr tip"
    by simp
  show ?thesis
  proof (cases f)
    case EventId
    then have "verify_rows H p (Suc i) (?e' # drop (Suc i) ?rows)
                 = verify_rows H p (Suc i) (e # drop (Suc i) ?rows)"
      by simp
    with EventId show ?thesis by (simp only: step orig) simp
  next
    case PrevHash
    with v p show ?thesis by (simp add: step)
  next
    case EventHash
    with v h p show ?thesis by (simp add: step row_material_def)
  next
    case CreatedAt
    with material_changed [of f v e] v nocoll h p show ?thesis
      by (simp add: step row_material_def)
  next
    case EventType
    with material_changed [of f v e] v nocoll h p show ?thesis
      by (simp add: step row_material_def)
  next
    case EntityType
    with material_changed [of f v e] v nocoll h p show ?thesis
      by (simp add: step row_material_def)
  next
    case EntityId
    with material_changed [of f v e] v nocoll h p show ?thesis
      by (simp add: step row_material_def)
  next
    case PayloadJson
    with material_changed [of f v e] v nocoll h p show ?thesis
      by (simp add: step row_material_def)
  qed
qed

lemma tamper_example_facts:
  "verify_chain hex_digest example_chain = Inr (chain_tip example_chain)"
  "order_by_created_at example_chain = example_chain"
  "order_by_created_at (example_chain[0 := set_field EventType ''x'' (example_chain ! 0)])
     = example_chain[0 := set_field EventType ''x'' (example_chain ! 0)]"
  "hex_digest (row_material (set_field EventType ''x'' (example_chain ! 0)))
     \<noteq> hex_digest (row_material (example_chain ! 0))"
  by code_simp+

theorem tamper_detected_witness:
  "verify_chain hex_digest example_chain = Inr (chain_tip example_chain)
   \<and> ''x'' \<noteq> get_field EventType (example_chain ! 0)
   \<and> verify_chain hex_digest (example_chain[0 := set_field EventType ''x'' (example_chain ! 0)])
       = Inl (TamperDetected 1)"
proof -
  let ?e = "example_chain ! 0"
  let ?c' = "example_chain[0 := set_field EventType ''x'' ?e]"
  have i: "0 < length (order_by_created_at example_chain)"
    by (simp add: tamper_example_facts(2)) (simp add: example_chain_def)
  have e: "?e = order_by_created_at example_chain ! 0"
    by (simp add: tamper_example_facts(2))
  have mut: "order_by_created_at ?c' = (order_by_created_at example_chain)[0 := set_field EventType ''x'' ?e]"
    by (simp only: tamper_example_facts(2,3))
  have v: "''x'' \<noteq> get_field EventType ?e"
    by (simp add: example_chain_def)
  from tamper_detected [OF tamper_example_facts(1) i e mut v] tamper_example_facts(4)
  show ?thesis
    using tamper_example_facts(1) v by simp
qed

text \<open>
  C2 as stated fails for \<open>event_id\<close>, which is not part of the hashed text: after
  the \<open>event_id\<close> of the first row is overwritten, \<open>verify_chain\<close> still returns
  the tip.
\<close>

theorem tamper_event_id_counterexample:
  "verify_chain hex_digest example_chain = Inr (chain_tip example_chain)
   \<and> ''forged'' \<noteq> get_field EventId (example_chain ! 0)
   \<and> verify_chain hex_digest (example_chain[0 := set_field EventId ''forged'' (example_chain ! 0)])
       = Inr (chain_tip example_chain)"
  by code_simp

section \<open>Publishing\<close>

text \<open>
  C4. When \<open>verify_chain\<close> raises in the first step of \<open>daily_publish\<close>,
  \<open>daily_publish\<close> raises the same error and the world is as before the call: the
  anchor file and the anchor history file are untouched.
\<close>

theorem publish_aborts_on_broken_chain:
  assumes "verify_chain H (ledger_events w) = Inl err"
  shows "daily_publish H out clk w anchor_path history_path label = (Inl err, w)"
  using assms by (simp add: daily_publish_def)

theorem publish_aborts_on_broken_chain_witness:
  "verify_chain hex_digest
     (ledger_events \<lparr>ledger_events = example_rows, anchor_file = Some ''latest_hash=00'',
                     anchor_history = Some ''t | 00 | n''\<rparr>) = Inl (ChainBroken 1)
   \<and> daily_publish hex_digest no_mail example_clock
       \<lparr>ledger_events = example_rows, anchor_file = Some ''latest_hash=00'',
        anchor_history = Some ''t | 00 | n''\<rparr> ''ANCHOR.txt'' ''ANCHOR_HISTORY.log'' ''EOD''
       = (Inl (ChainBroken 1),
          \<lparr>ledger_events = example_rows, anchor_file = Some ''latest_hash=00'',
           anchor_history = Some ''t | 00 | n''\<rparr>)"
proof -
  have h: "verify_chain hex_digest
     (ledger_events \<lparr>ledger_events = example_rows, anchor_file = Some ''latest_hash=00'',
                     anchor_history = Some ''t | 00 | n''\<rparr>) = Inl (ChainBroken 1)"
    by code_simp
  from publish_aborts_on_broken_chain [OF h] show ?thesis
    using h by simp
qed

text \<open>
  C5. When the chain verifies, the anchor has been written and checked, and
  \<open>send_email\<close> then raises, \<open>daily_publish\<close> raises that error and the world is the
  one left by \<open>write_anchor_files\<close>: the anchor file reads back the tip as
  \<open>latest_hash\<close>, the history file is the old one followed by the new line, and the
  table of events is unchanged.
\<close>

theorem publish_keeps_anchor_when_email_fails:
  assumes chain: "verify_chain H (ledger_events w) = Inr tip"
    and nt: "note = strip (''DAILY_ANCHOR '' @ today_note clk @ '' '' @ label)"
    and w1: "w1 = write_anchor_files w tip note (now_iso clk)"
    and anchored: "verify_anchor H w1 = Inr ()"
    and mail: "send_email out (''History Anchor '' @ today_payload clk @ '' '' @ take 12 tip)
                 (canonical_json (JDict
                    [(''type'', JStr ''daily_anchor''),
                     (''date_utc'', JStr (today_payload clk)),
                     (''label'', JStr label),
                     (''timestamp'', JStr (now_iso clk)),
                     (''latest_hash'', JStr tip),
                     (''anchor_file'', JStr anchor_path),
                     (''anchor_history'', JStr history_path)])) = Some err"
  shows "daily_publish H out clk w anchor_path history_path label = (Inl err, w1)
         \<and> ledger_events w1 = ledger_events w
         \<and> (\<exists>data. read_anchor_file w1 = Inr data \<and> data ''latest_hash'' = Some tip)
         \<and> anchor_history w1 =
             Some (file_text (anchor_history w) @ now_iso clk @ '' | '' @ tip @ '' | '' @ note @ [LF])"
proof -
  have 1: "daily_publish H out clk w anchor_path history_path label = (Inl err, w1)"
    using chain anchored mail unfolding daily_publish_def Let_def nt w1
    by (simp del: canonical_json.simps)
  have 2: "ledger_events w1 = ledger_events w"
    by (simp add: w1 write_anchor_files_def)
  from anchored have 3: "\<exists>data. read_anchor_file w1 = Inr data \<and> data ''latest_hash'' = Some tip"
    by (auto simp: verify_anchor_def 2 chain split: sum.splits option.splits if_splits)
  have 4: "anchor_history w1 =
             Some (file_text (anchor_history w) @ now_iso clk @ '' | '' @ tip @ '' | '' @ note @ [LF])"
    by (simp add: w1 write_anchor_files_def)
  from 1 2 3 4 show ?thesis by blast
qed

lemma no_mail_fails: "send_email no_mail subject body = Some MissingSmtpEnv"
  by (simp add: send_email_def no_mail_def env_def file_text_def)

lemma publish_example_facts:
  "verify_chain hex_digest example_chain = Inr (chain_tip example_chain)"
  "verify_anchor hex_digest
     (write_anchor_files \<lparr>ledger_events = example_chain, anchor_file = None, anchor_history = None\<rparr>
        (chain_tip example_chain) (strip (''DAILY_ANCHOR '' @ today_note example_clock @ '' '' @ ''EOD''))
        (now_iso example_clock)) = Inr ()"
  by code_simp+

theorem publish_keeps_anchor_when_email_fails_witness:
  "verify_chain hex_digest example_chain = Inr (chain_tip example_chain)
   \<and> daily_publish hex_digest no_mail example_clock
        \<lparr>ledger_events = example_chain, anchor_file = None, anchor_history = None\<rparr>
        ''ANCHOR.txt'' ''ANCHOR_HISTORY.log'' ''EOD''
      = (Inl MissingSmtpEnv,
         write_anchor_files \<lparr>ledger_events = example_chain, anchor_file = None, anchor_history = None\<rparr>
           (chain_tip example_chain)
           (strip (''DAILY_ANCHOR '' @ today_note example_clock @ '' '' @ ''EOD''))
           (now_iso example_clock))"
proof -
  let ?w = "\<lparr>ledger_events = example_chain, anchor_file = None, anchor_history = None\<rparr>"
  have c: "verify_chain hex_digest (ledger_events ?w) = Inr (chain_tip example_chain)"
    by (simp add: publish_example_facts(1))
  from publish_keeps_anchor_when_email_fails
    [OF c refl refl publish_example_facts(2) no_mail_fails]
  show ?thesis
    using publish_example_facts(1) by blast
qed



section \<open>Text of the anchor files\<close>

lemma is_space_LF [simp]: "is_space LF"
  by (simp add: is_space_def LF_def)

lemma is_space_CR [simp]: "is_space CR"
  by (simp add: is_space_def CR_def)

lemma linebreak_is_space: "is_linebreak c \<Longrightarrow> is_space c"
  by (auto simp: is_linebreak_def is_space_def Let_def)

lemma universal_newlines_id: "CR \<notin> set s \<Longrightarrow> universal_newlines False s = s"
  by (induction s) auto

lemma read_text_id: "CR \<notin> set s \<Longrightarrow> read_text s = s"
  by (simp add: read_text_def universal_newlines_id)

lemma readlines_line:
  "LF \<notin> set a \<Longrightarrow> readlines cur (a @ LF # rest) = (cur @ a @ [LF]) # readlines [] rest"
  by (induction a arbitrary: cur) auto

lemma splitlines_one:
  "\<forall>c \<in> set s. \<not> is_linebreak c \<Longrightarrow>
   splitlines False cur s = (if cur @ s = [] then [] else [cur @ s])"
  by (induction s arbitrary: cur) auto

lemma strip_prefix:
  assumes "p \<noteq> []" "\<not> is_space (hd p)" "\<not> is_space (last p)"
  shows "strip (p @ x) = p @ rev (dropWhile is_space (rev x))"
proof -
  from assms have 1: "dropWhile is_space (p @ x) = p @ x"
    by (cases p) auto
  from assms have 2: "dropWhile is_space (rev p) = rev p"
    by (cases p rule: rev_cases) auto
  have "dropWhile is_space (rev x @ rev p) = dropWhile is_space (rev x) @ rev p"
    by (simp add: dropWhile_append 2)
  then show ?thesis
    by (simp add: strip_def 1)
qed

lemma rstrip_line:
  "trimmed h \<Longrightarrow> rev (dropWhile is_space (rev (h @ [LF]))) = h"
  by (cases h rule: rev_cases) (auto simp: trimmed_def)

lemma strip_trimmed: "trimmed s \<Longrightarrow> strip s = s"
proof (cases "s = []")
  case True
  then show ?thesis by (simp add: strip_def)
next
  case False
  assume "trimmed s"
  with False have "\<not> is_space (hd s)" "\<not> is_space (last s)"
    by (auto simp: trimmed_def)
  from strip_prefix [OF False this, of "[]"] show ?thesis by simp
qed

lemma strip_key [simp]:
  "strip ''latest_hash'' = ''latest_hash''" "strip ''timestamp'' = ''timestamp''"
  "strip ''note'' = ''note''"
  by (simp_all add: strip_def is_space_def)

lemma parse_latest_hash:
  assumes "trimmed h"
  shows "parse_anchor_line data (''latest_hash='' @ h @ [LF]) = data(''latest_hash'' \<mapsto> h)"
proof -
  have "strip (''latest_hash='' @ (h @ [LF]))
          = ''latest_hash='' @ rev (dropWhile is_space (rev (h @ [LF])))"
    by (rule strip_prefix) (simp_all add: is_space_def)
  then have "strip (''latest_hash='' @ (h @ [LF])) = ''latest_hash='' @ h"
    by (simp only: rstrip_line [OF assms])
  then show ?thesis
    by (simp add: parse_anchor_line_def split_eq_def strip_trimmed [OF assms])
qed

lemma parse_timestamp:
  "\<exists>v. parse_anchor_line data (''timestamp='' @ x) = data(''timestamp'' \<mapsto> v)"
proof -
  have "strip (''timestamp='' @ x) = ''timestamp='' @ rev (dropWhile is_space (rev x))"
    by (rule strip_prefix) (simp_all add: is_space_def)
  then show ?thesis
    by (auto simp: parse_anchor_line_def split_eq_def)
qed

lemma parse_note:
  "\<exists>v. parse_anchor_line data (''note='' @ x) = data(''note'' \<mapsto> v)"
proof -
  have "strip (''note='' @ x) = ''note='' @ rev (dropWhile is_space (rev x))"
    by (rule strip_prefix) (simp_all add: is_space_def)
  then show ?thesis
    by (auto simp: parse_anchor_line_def split_eq_def)
qed

lemma readlines_three:
  assumes "LF \<notin> set a" "LF \<notin> set b" "LF \<notin> set c"
  shows "readlines [] (a @ [LF] @ b @ [LF] @ c @ [LF]) = [a @ [LF], b @ [LF], c @ [LF]]"
  using readlines_line [OF assms(1), of "[]" "b @ [LF] @ c @ [LF]"]
    readlines_line [OF assms(2), of "[]" "c @ [LF]"]
    readlines_line [OF assms(3), of "[]" "[]"]
  by simp

lemma foldl_three: "foldl f a [x, y, z] = f (f (f a x) y) z"
  by simp

lemma anchor_text_reads_back:
  assumes h: "one_line h" "trimmed h" and ts: "one_line ts" and nt: "one_line note"
  shows "foldl parse_anchor_line Map.empty
           (readlines [] (read_text (''latest_hash='' @ h @ [LF] @ ''timestamp='' @ ts @ [LF]
                                       @ ''note='' @ note @ [LF]))) ''latest_hash'' = Some h"
proof -
  let ?text = "''latest_hash='' @ h @ [LF] @ ''timestamp='' @ ts @ [LF] @ ''note='' @ note @ [LF]"
  have cr: "CR \<notin> set ?text"
    using h ts nt by (auto simp: one_line_def CR_def LF_def)
  have l1: "LF \<notin> set (''latest_hash='' @ h)" and l2: "LF \<notin> set (''timestamp='' @ ts)"
    and l3: "LF \<notin> set (''note='' @ note)"
    using h ts nt by (auto simp: one_line_def LF_def)
  have lines: "readlines [] (read_text ?text) =
          [''latest_hash='' @ h @ [LF], ''timestamp='' @ (ts @ [LF]), ''note='' @ (note @ [LF])]"
    using readlines_three [OF l1 l2 l3] by (simp only: read_text_id [OF cr] append_assoc)
  obtain v1 where v1: "parse_anchor_line (Map.empty(''latest_hash'' \<mapsto> h)) (''timestamp='' @ (ts @ [LF]))
      = (Map.empty(''latest_hash'' \<mapsto> h))(''timestamp'' \<mapsto> v1)"
    using parse_timestamp by blast
  obtain v2 where v2: "parse_anchor_line ((Map.empty(''latest_hash'' \<mapsto> h))(''timestamp'' \<mapsto> v1))
      (''note='' @ (note @ [LF]))
      = ((Map.empty(''latest_hash'' \<mapsto> h))(''timestamp'' \<mapsto> v1))(''note'' \<mapsto> v2)"
    using parse_note by blast
  show ?thesis
    unfolding lines foldl_three parse_latest_hash [OF h(2)] v1 v2 by simp
qed

section \<open>Round trip of the anchor\<close>

text \<open>
  C8 (as amended). For every hash \<open>h\<close> without line break and without white space at
  its ends, and every note and timestamp without line break, \<open>read_anchor_file\<close> after
  \<open>write_anchor_files\<close> yields a record whose \<open>latest_hash\<close> is \<open>h\<close>.
\<close>

theorem anchor_round_trip:
  assumes "one_line h" "trimmed h" "one_line ts" "one_line note"
  shows "\<exists>data. read_anchor_file (write_anchor_files w h note ts) = Inr data
                \<and> data ''latest_hash'' = Some h"
  using anchor_text_reads_back [OF assms]
  by (simp add: read_anchor_file_def write_anchor_files_def)

theorem anchor_round_trip_witness:
  "one_line ''GENESIS'' \<and> trimmed ''GENESIS'' \<and> one_line ''2025-01-01T00:00:00Z''
   \<and> one_line ''DAILY_ANCHOR 2025-01-01 EOD''
   \<and> (\<exists>data. read_anchor_file
          (write_anchor_files \<lparr>ledger_events = [], anchor_file = None, anchor_history = None\<rparr>
             ''GENESIS'' ''DAILY_ANCHOR 2025-01-01 EOD'' ''2025-01-01T00:00:00Z'') = Inr data
        \<and> data ''latest_hash'' = Some ''GENESIS'')"
proof -
  have 1: "one_line ''GENESIS''" and 2: "trimmed ''GENESIS''"
    and 3: "one_line ''2025-01-01T00:00:00Z''" and 4: "one_line ''DAILY_ANCHOR 2025-01-01 EOD''"
    by (simp_all add: one_line_def trimmed_def is_space_def LF_def CR_def)
  from anchor_round_trip [OF 1 2 3 4] show ?thesis
    using 1 2 3 4 by simp
qed

text \<open>
  C8 as stated fails: nothing escapes the note, so a note with a line break followed by
  \<open>latest_hash=evil\<close> is read back as a later \<open>latest_hash\<close> line of the anchor file.
\<close>

theorem anchor_round_trip_counterexample:
  "case read_anchor_file
          (write_anchor_files \<lparr>ledger_events = [], anchor_file = None, anchor_history = None\<rparr>
             ''abc'' (''EOD'' @ [LF] @ ''latest_hash=evil'') ''2025-01-01T00:00:00Z'') of
     Inl err \<Rightarrow> False
   | Inr data \<Rightarrow> data ''latest_hash'' = Some ''evil''"
  by code_simp




section \<open>Reading the anchor\<close>

lemma read_prev_anchor_bare:
  assumes h: "h \<noteq> []" "\<forall>c \<in> set h. \<not> is_space c" "\<not> startswith h ''latest_hash=''"
    and nl: "nl = [] \<or> nl = [LF]"
  shows "read_prev_anchor (w\<lparr>anchor_file := Some (h @ nl)\<rparr>) = Inr h"
proof -
  from h have t: "trimmed h" by (simp add: trimmed_def)
  have "CR \<notin> set h"
    using h(2) is_space_CR by blast
  then have cr: "CR \<notin> set (h @ nl)"
    using nl by (auto simp: LF_def CR_def)
  have s: "strip (h @ nl) = h"
    using nl strip_prefix [of h "[LF]"] h rstrip_line [OF t, simplified] strip_trimmed [OF t]
    by auto
  have lb: "\<forall>c \<in> set h. \<not> is_linebreak c"
    using h(2) linebreak_is_space by blast
  have sp: "splitlines False [] h = [h]"
    using h(1) by (simp add: splitlines_one [OF lb])
  show ?thesis
    using h(1,3) by (simp add: read_prev_anchor_def read_text_id [OF cr] s sp strip_trimmed [OF t] Let_def)
qed

text \<open>
  C7 (as amended). \<open>read_prev_anchor\<close> of finalize.py accepts an anchor file that
  holds only a hash (with or without a final line break) and yields that hash; it never
  fails, and yields \<open>GENESIS\<close> for an absent anchor file. \<open>read_anchor_file\<close> of
  ledger.py fails when the anchor file is absent, and \<open>verify_anchor\<close> fails when the
  file is absent or has no \<open>latest_hash\<close> entry.
\<close>

theorem read_anchor_formats:
  "(h \<noteq> [] \<and> (\<forall>c \<in> set h. \<not> is_space c) \<and> \<not> startswith h ''latest_hash=''
      \<longrightarrow> read_prev_anchor (w\<lparr>anchor_file := Some h\<rparr>) = Inr h
          \<and> read_prev_anchor (w\<lparr>anchor_file := Some (h @ [LF])\<rparr>) = Inr h)
   \<and> (anchor_file w2 = None
      \<longrightarrow> read_prev_anchor w2 = Inr ''GENESIS'' \<and> read_anchor_file w2 = Inl AnchorNotFound
          \<and> (verify_chain H (ledger_events w2) = Inr tip \<longrightarrow> verify_anchor H w2 = Inl AnchorNotFound))
   \<and> (verify_chain H (ledger_events w3) = Inr tip3 \<and> read_anchor_file w3 = Inr data
        \<and> data ''latest_hash'' = None
      \<longrightarrow> verify_anchor H w3 = Inl MissingLatestHash)"
proof (intro conjI impI)
  assume a: "h \<noteq> [] \<and> (\<forall>c \<in> set h. \<not> is_space c) \<and> \<not> startswith h ''latest_hash=''"
  from read_prev_anchor_bare [of h "[]" w] a
  show "read_prev_anchor (w\<lparr>anchor_file := Some h\<rparr>) = Inr h" by simp
  from read_prev_anchor_bare [of h "[LF]" w] a
  show "read_prev_anchor (w\<lparr>anchor_file := Some (h @ [LF])\<rparr>) = Inr h" by simp
next
  assume "anchor_file w2 = None"
  then show "read_prev_anchor w2 = Inr ''GENESIS''" "read_anchor_file w2 = Inl AnchorNotFound"
    by (simp_all add: read_prev_anchor_def read_anchor_file_def)
next
  assume "anchor_file w2 = None" "verify_chain H (ledger_events w2) = Inr tip"
  then show "verify_anchor H w2 = Inl AnchorNotFound"
    by (simp add: verify_anchor_def read_anchor_file_def)
next
  assume "verify_chain H (ledger_events w3) = Inr tip3 \<and> read_anchor_file w3 = Inr data
        \<and> data ''latest_hash'' = None"
  then show "verify_anchor H w3 = Inl MissingLatestHash"
    by (simp add: verify_anchor_def)
qed

lemma read_anchor_example_facts:
  "''abc123'' \<noteq> [] \<and> (\<forall>c \<in> set ''abc123''. \<not> is_space c) \<and> \<not> startswith ''abc123'' ''latest_hash=''"
  "verify_chain hex_digest (ledger_events \<lparr>ledger_events = [], anchor_file = Some ''abc123'', anchor_history = None\<rparr>)
     = Inr ''GENESIS''"
  "case read_anchor_file \<lparr>ledger_events = [], anchor_file = Some ''abc123'', anchor_history = None\<rparr> of
     Inl err \<Rightarrow> False | Inr data \<Rightarrow> data ''latest_hash'' = None"
  by code_simp+

theorem read_anchor_formats_witness:
  "read_prev_anchor \<lparr>ledger_events = [], anchor_file = Some ''abc123'', anchor_history = None\<rparr>
     = Inr ''abc123''
   \<and> read_prev_anchor \<lparr>ledger_events = [], anchor_file = Some (''abc123'' @ [LF]), anchor_history = None\<rparr>
     = Inr ''abc123''
   \<and> read_prev_anchor \<lparr>ledger_events = [], anchor_file = None, anchor_history = None\<rparr> = Inr ''GENESIS''
   \<and> read_anchor_file \<lparr>ledger_events = [], anchor_file = None, anchor_history = None\<rparr> = Inl AnchorNotFound
   \<and> verify_anchor hex_digest \<lparr>ledger_events = [], anchor_file = None, anchor_history = None\<rparr>
       = Inl AnchorNotFound
   \<and> verify_anchor hex_digest \<lparr>ledger_events = [], anchor_file = Some ''abc123'', anchor_history = None\<rparr>
       = Inl MissingLatestHash"
proof -
  let ?w = "\<lparr>ledger_events = [], anchor_file = Some ''abc123'', anchor_history = None\<rparr>"
  let ?w2 = "\<lparr>ledger_events = [], anchor_file = None, anchor_history = None\<rparr>"
  have c2: "verify_chain hex_digest (ledger_events ?w2) = Inr ''GENESIS''"
    by (simp add: verify_chain_def order_by_created_at_def GENESIS_HASH_def)
  obtain data where d: "read_anchor_file ?w = Inr data" and e: "data ''latest_hash'' = None"
    using read_anchor_example_facts(3) by (cases "read_anchor_file ?w") auto
  from read_anchor_formats [of "''abc123''" ?w ?w2 hex_digest "''GENESIS''" ?w "''GENESIS''" data]
    read_anchor_example_facts(1,2) c2 d e
  show ?thesis by simp
qed

text \<open>
  C7 as stated fails for both readers: ledger.py reads no \<open>latest_hash\<close> from a file
  that holds only a hash, so \<open>verify_anchor\<close> raises; finalize.py does not fail on an
  absent anchor file, nor on one without \<open>latest_hash\<close>, whose first line it takes for
  the hash.
\<close>

theorem read_anchor_formats_counterexample:
  "verify_anchor hex_digest \<lparr>ledger_events = [], anchor_file = Some ''abc123'', anchor_history = None\<rparr>
     = Inl MissingLatestHash
   \<and> read_prev_anchor \<lparr>ledger_events = [], anchor_file = None, anchor_history = None\<rparr> = Inr ''GENESIS''
   \<and> read_prev_anchor \<lparr>ledger_events = [], anchor_file = Some ''timestamp=t'', anchor_history = None\<rparr>
     = Inr ''timestamp=t''"
  by code_simp

section \<open>The anchor history\<close>

lemma write_anchor_files_appends:
  "anchor_history (write_anchor_files w h note ts)
     = Some (file_text (anchor_history w) @ (ts @ '' | '' @ h @ '' | '' @ note) @ [LF])"
  by (simp add: write_anchor_files_def)

lemma ai_write_anchor_files_appends:
  "anchor_history (ai_write_anchor_files w h note ts)
     = Some (file_text (anchor_history w) @ (ts @ '' | '' @ h @ '' | '' @ note) @ [LF])"
  by (simp add: ai_write_anchor_files_def)

lemma append_history_line_appends:
  "CR \<notin> set (file_text (anchor_history w)) \<Longrightarrow>
   anchor_history (append_history_line w record_line)
     = Some (file_text (anchor_history w) @ record_line @ [LF])"
  by (cases "anchor_history w") (simp_all add: append_history_line_def file_text_def read_text_id)

text \<open>
  C9. \<open>write_anchor_files\<close> of ledger.py and of ai_layer.py open the history file for
  appending: the old text stays and one entry with its line break follows it (the two
  lemmas above). \<open>append_history_line\<close> of finalize.py reads the whole file in text
  mode and writes it back with the new entry: the old text stays when it holds no
  carriage return (the third lemma), but a carriage return in an earlier entry is
  rewritten as a line break, as here.
\<close>

theorem append_history_line_rewrites_history:
  "anchor_history (append_history_line
      \<lparr>ledger_events = [], anchor_file = None,
       anchor_history = Some (''t | 00 | a'' @ [CR] @ ''b'' @ [LF])\<rparr> ''r'')
     = Some (''t | 00 | a'' @ [LF] @ ''b'' @ [LF] @ ''r'' @ [LF])"
  by code_simp



section \<open>Anchoring a final decision\<close>

lemma verify_rows_last:
  "verify_rows H prev idx rows = Inr tip \<Longrightarrow> rows \<noteq> [] \<Longrightarrow>
   tip = event_hash (last rows) \<and> H (row_material (last rows)) = event_hash (last rows)"
proof (induction rows arbitrary: prev idx)
  case Nil
  then show ?case by simp
next
  case (Cons e es)
  show ?case
  proof (cases "es = []")
    case True
    with Cons.prems show ?thesis
      by (auto simp: row_material_def split: if_splits)
  next
    case False
    from Cons.prems(1) have "verify_rows H (event_hash e) (Suc idx) es = Inr tip"
      by (auto split: if_splits)
    from Cons.IH [OF this False] False show ?thesis by simp
  qed
qed

lemma anchor_record_result:
  assumes "read_prev_anchor w = Inr prev"
  shows "anchor_record H w now record_line note =
           (Inr (H (prev @ [LF] @ record_line)),
            write_anchor_file
              (append_history_line w
                 (record_line @ '' | '' @ H (prev @ [LF] @ record_line) @ '' | '' @ note))
              (H (prev @ [LF] @ record_line)) note now)"
  using assms by (simp add: anchor_record_def Let_def)

text \<open>
  C10 (as amended). \<open>anchor_record\<close> computes the new hash from the previous anchor
  and the record line alone, writes it as \<open>latest_hash\<close> of the anchor file and adds
  the line \<open>record_line | new_hash | note\<close> to the history. When the table of events
  is not empty, the note and the timestamp have no line break, the digest is not empty
  and has no white space, and the text hashed for the last event is neither the text
  hashed here nor given the same digest, \<open>verify_anchor\<close> afterwards raises: the chain
  error if the chain does not verify, the anchor mismatch otherwise.
\<close>

theorem anchor_record_desynchronises:
  assumes prev: "read_prev_anchor w = Inr prev"
    and new: "new_hash = H (prev @ [LF] @ record_line)"
    and hex: "new_hash \<noteq> []" "\<forall>c \<in> set new_hash. \<not> is_space c"
    and lines: "one_line note" "one_line now"
    and rows: "order_by_created_at (ledger_events w) \<noteq> []"
    and e: "e = last (order_by_created_at (ledger_events w))"
    and differ: "row_material e \<noteq> prev @ [LF] @ record_line"
    and nocoll: "H (row_material e) = H (prev @ [LF] @ record_line)
                   \<longrightarrow> row_material e = prev @ [LF] @ record_line"
    and w': "w' = snd (anchor_record H w now record_line note)"
  shows "fst (anchor_record H w now record_line note) = Inr new_hash
         \<and> (\<exists>data. read_anchor_file w' = Inr data \<and> data ''latest_hash'' = Some new_hash)
         \<and> anchor_history w' =
             Some ((case anchor_history w of None \<Rightarrow> [] | Some old \<Rightarrow> read_text old)
                   @ record_line @ '' | '' @ new_hash @ '' | '' @ note @ [LF])
         \<and> verify_anchor H w' =
             Inl (case verify_chain H (ledger_events w) of
                    Inl err \<Rightarrow> err
                  | Inr tip \<Rightarrow> AnchorMismatch tip new_hash)"
proof -
  have ol: "one_line new_hash"
    using hex(2) is_space_LF is_space_CR by (auto simp: one_line_def)
  have tr: "trimmed new_hash"
    using hex by (simp add: trimmed_def)
  have w2: "w' = write_anchor_file
              (append_history_line w (record_line @ '' | '' @ new_hash @ '' | '' @ note))
              new_hash note now"
    by (simp add: w' anchor_record_result [OF prev] new)
  have 1: "fst (anchor_record H w now record_line note) = Inr new_hash"
    by (simp add: anchor_record_result [OF prev] new)
  have rd: "read_anchor_file w' =
              Inr (foldl parse_anchor_line Map.empty
                     (readlines [] (read_text (''latest_hash='' @ new_hash @ [LF] @ ''timestamp=''
                                       @ now @ [LF] @ ''note='' @ note @ [LF]))))"
    by (simp add: w2 write_anchor_file_def read_anchor_file_def)
  from anchor_text_reads_back [OF ol tr lines(2) lines(1)]
  have 2: "\<exists>data. read_anchor_file w' = Inr data \<and> data ''latest_hash'' = Some new_hash"
    by (simp only: rd) blast
  have 3: "anchor_history w' =
             Some ((case anchor_history w of None \<Rightarrow> [] | Some old \<Rightarrow> read_text old)
                   @ record_line @ '' | '' @ new_hash @ '' | '' @ note @ [LF])"
    by (simp add: w2 write_anchor_file_def append_history_line_def)
  have db: "ledger_events w' = ledger_events w"
    by (simp add: w2 write_anchor_file_def append_history_line_def)
  have 4: "verify_anchor H w' =
             Inl (case verify_chain H (ledger_events w) of
                    Inl err \<Rightarrow> err
                  | Inr tip \<Rightarrow> AnchorMismatch tip new_hash)"
  proof (cases "verify_chain H (ledger_events w)")
    case (Inl err)
    then show ?thesis by (simp add: verify_anchor_def db)
  next
    case (Inr tip)
    then have "verify_rows H GENESIS_HASH 1 (order_by_created_at (ledger_events w)) = Inr tip"
      by (simp add: verify_chain_rows)
    from verify_rows_last [OF this rows] have "tip = H (row_material e)"
      by (simp add: e)
    with differ nocoll have "tip \<noteq> new_hash"
      by (auto simp: new)
    with 2 Inr hex(1) show ?thesis
      by (auto simp: verify_anchor_def db)
  qed
  from 1 2 3 4 show ?thesis by blast
qed

lemma anchor_record_example_facts:
  "read_prev_anchor \<lparr>ledger_events = example_chain, anchor_file = None, anchor_history = None\<rparr>
     = Inr ''GENESIS''"
  "hex_digest (''GENESIS'' @ [LF] @ ''r'') \<noteq> []"
  "\<forall>c \<in> set (hex_digest (''GENESIS'' @ [LF] @ ''r'')). \<not> is_space c"
  "one_line ''n''" "one_line ''t''"
  "order_by_created_at
     (ledger_events \<lparr>ledger_events = example_chain, anchor_file = None, anchor_history = None\<rparr>) \<noteq> []"
  "row_material (last (order_by_created_at
     (ledger_events \<lparr>ledger_events = example_chain, anchor_file = None, anchor_history = None\<rparr>)))
     \<noteq> ''GENESIS'' @ [LF] @ ''r''"
  "hex_digest (row_material (last (order_by_created_at
     (ledger_events \<lparr>ledger_events = example_chain, anchor_file = None, anchor_history = None\<rparr>))))
     \<noteq> hex_digest (''GENESIS'' @ [LF] @ ''r'')"
  by code_simp+

theorem anchor_record_desynchronises_witness:
  "verify_chain hex_digest example_chain = Inr (chain_tip example_chain)
   \<and> verify_anchor hex_digest
       (snd (anchor_record hex_digest
               \<lparr>ledger_events = example_chain, anchor_file = None, anchor_history = None\<rparr>
               ''t'' ''r'' ''n''))
     = Inl (AnchorMismatch (chain_tip example_chain) (hex_digest (''GENESIS'' @ [LF] @ ''r'')))"
proof -
  let ?w = "\<lparr>ledger_events = example_chain, anchor_file = None, anchor_history = None\<rparr>"
  note f = anchor_record_example_facts
  have n: "hex_digest (row_material (last (order_by_created_at (ledger_events ?w))))
             = hex_digest (''GENESIS'' @ [LF] @ ''r'')
           \<longrightarrow> row_material (last (order_by_created_at (ledger_events ?w))) = ''GENESIS'' @ [LF] @ ''r''"
    using f(8) by simp
  from anchor_record_desynchronises [OF f(1) refl f(2) f(3) f(4) f(5) f(6) refl f(7) n refl]
  show ?thesis
    using tamper_example_facts(1) by simp
qed

text \<open>
  C10 as stated fails when the two hashed texts are the same: with the previous anchor
  \<open>GENESIS|1\<close> and a first event whose \<open>created_at\<close> is \<open>1\<close>, a line break and
  \<open>2\<close>, the record line \<open>2|t|d|1|{}\<close> makes \<open>anchor_record\<close> hash exactly the text
  of that event, and \<open>verify_anchor\<close> passes.
\<close>

theorem anchor_record_desynchronises_counterexample:
  "verify_chain hex_digest newline_rows = Inr (chain_tip newline_rows)
   \<and> newline_rows \<noteq> []
   \<and> verify_anchor hex_digest
       (snd (anchor_record hex_digest
               \<lparr>ledger_events = newline_rows, anchor_file = Some ''GENESIS|1'', anchor_history = None\<rparr>
               ''2025-01-01T00:00:00Z'' ''2|t|d|1|{}'' ''n'')) = Inr ()"
  by code_simp


end
